theory Spec2Isabelle
  imports Main "HOL-Library.AList" "HOL-Library.Sublist"
begin

section \<open>Unique request counter: a shallow embedding of main.go\<close>

text \<open>
  The program is one Go file. A request handler parses an integer identifier, marks it in
  Redis with \<^verbatim>\<open>SET key true EX 60 NX\<close>, optionally posts a notification, and answers
  with one of four HTTP responses. A background loop wakes up every minute, lists the keys
  \<^verbatim>\<open>request_id:*\<close>, reports how many there are to Kafka and to a log file, and
  deletes the keys it listed.

  Redis, Kafka, the log file, the HTTP client and the clock are outside the program. Each
  call to them is modelled by what the library documents, and whatever the outside world
  decides (the time at which a command runs, whether a call fails) is an explicit input.
\<close>

subsection \<open>Go errors\<close>

text \<open>
  \<open>ErrSyntax\<close> and \<open>ErrRange\<close> are the two errors of package strconv; every failure of
  an external call (Redis, Kafka, the file, the HTTP client) is an \<open>IOError\<close> with its
  message.
\<close>

datatype go_error = ErrSyntax | ErrRange | IOError string

subsection \<open>strconv.Atoi\<close>

text \<open>
  \<^verbatim>\<open>parseID\<close> is \<^verbatim>\<open>strconv.Atoi\<close>, which the Go documentation defines as
  \<^verbatim>\<open>ParseInt(s, 10, 0)\<close> converted to \<^verbatim>\<open>int\<close>. The model follows ParseInt and
  ParseUint of the standard library for base 10: an optional sign, then a loop over the
  bytes that stops with a syntax error at the first byte that is not a decimal digit and
  with a range error as soon as the unsigned value leaves 64 bits, then the check of the
  signed range. The accumulator is a natural number; the two overflow tests of the Go loop
  (\<^verbatim>\<open>n >= cutoff\<close> before the multiplication, the wrap-around test after the
  addition) are written as comparisons with \<open>maxUint64\<close>.
\<close>

definition intSize :: nat where
  "intSize = 64"

definition maxUint64 :: nat where
  "maxUint64 = 2 ^ 64 - 1"

definition is_digit :: "char \<Rightarrow> bool" where
  "is_digit c \<longleftrightarrow> (48::nat) \<le> of_char c \<and> of_char c \<le> (57::nat)"

definition digit_val :: "char \<Rightarrow> nat" where
  "digit_val c = of_char c - 48"

fun ParseUint_loop :: "nat \<Rightarrow> string \<Rightarrow> go_error + nat" where
  "ParseUint_loop n [] = Inr n"
| "ParseUint_loop n (c # cs) =
     (if \<not> is_digit c then Inl ErrSyntax
      else if n \<ge> maxUint64 div 10 + 1 then Inl ErrRange
      else if n * 10 + digit_val c > maxUint64 then Inl ErrRange
      else ParseUint_loop (n * 10 + digit_val c) cs)"

definition ParseUint :: "string \<Rightarrow> go_error + nat" where
  "ParseUint s = (if s = [] then Inl ErrSyntax else ParseUint_loop 0 s)"

definition int_range_check :: "bool \<Rightarrow> nat \<Rightarrow> go_error + int" where
  "int_range_check neg un =
     (let cutoff = 2 ^ (intSize - 1) in
      if \<not> neg \<and> un \<ge> cutoff then Inl ErrRange
      else if neg \<and> un > cutoff then Inl ErrRange
      else Inr (if neg then - int un else int un))"

definition ParseInt :: "string \<Rightarrow> go_error + int" where
  "ParseInt s =
     (case s of
        [] \<Rightarrow> Inl ErrSyntax
      | c # cs \<Rightarrow>
          (let neg = (c = CHR ''-'');
               s' = (if c = CHR ''+'' \<or> c = CHR ''-'' then cs else s)
           in case ParseUint s' of
                Inl err \<Rightarrow> if err \<noteq> ErrRange then Inl err else int_range_check neg maxUint64
              | Inr un \<Rightarrow> int_range_check neg un))"

definition Atoi :: "string \<Rightarrow> go_error + int" where
  "Atoi s = ParseInt s"

definition parseID :: "string \<Rightarrow> go_error + int" where
  "parseID s = Atoi s"

subsection \<open>Decimal strings, as the specification words them\<close>

text \<open>
  The specification speaks of ``strings representing a base-10 integer (sign optional)''.
  \<open>is_decimal\<close> and \<open>decimal_value\<close> say what that means, independently of the parser:
  an optional \<open>+\<close> or \<open>-\<close>, then at least one decimal digit, and the value read in
  base 10.
\<close>

definition digits_value :: "string \<Rightarrow> nat" where
  "digits_value cs = foldl (\<lambda>n c. n * 10 + digit_val c) 0 cs"

definition is_decimal :: "string \<Rightarrow> bool" where
  "is_decimal s =
     (case s of
        [] \<Rightarrow> False
      | c # cs \<Rightarrow>
          if c = CHR ''+'' \<or> c = CHR ''-'' then cs \<noteq> [] \<and> list_all is_digit cs
          else list_all is_digit s)"

definition decimal_value :: "string \<Rightarrow> int" where
  "decimal_value s =
     (case s of
        [] \<Rightarrow> 0
      | c # cs \<Rightarrow>
          if c = CHR ''-'' then - int (digits_value cs)
          else if c = CHR ''+'' then int (digits_value cs)
          else int (digits_value s))"

definition fits_int :: "int \<Rightarrow> bool" where
  "fits_int v \<longleftrightarrow> - (2 ^ (intSize - 1)) \<le> v \<and> v < 2 ^ (intSize - 1)"

subsection \<open>fmt.Sprintf with the verb %d\<close>

text \<open>The digits come from the table of package fmt; the index is always below ten.\<close>

definition digit_char :: "nat \<Rightarrow> char" where
  "digit_char d = ''0123456789'' ! d"

function digits_of :: "nat \<Rightarrow> string" where
  "digits_of n =
     (if n < 10 then [digit_char n]
      else digits_of (n div 10) @ [digit_char (n mod 10)])"
  by pat_completeness auto
termination
  by (relation "measure id") auto

declare digits_of.simps [simp del]

definition fmt_d :: "int \<Rightarrow> string" where
  "fmt_d i = (if i < 0 then CHR ''-'' # digits_of (nat (- i)) else digits_of (nat i))"

subsection \<open>The Redis server\<close>

text \<open>
  The store holds, for each key, a value and the time (in milliseconds) at which the key
  expires. A key is live until that time; an expired key behaves as an absent one. The
  three commands the program sends are SET with NX and EX, KEYS and DEL. A command that
  fails in transit returns its error and leaves the store as it was. Redis runs one
  command at a time, so each command is a function on the store.
\<close>

type_synonym store = "(string \<times> string \<times> nat) list"

text \<open>\<^verbatim>\<open>time.Minute\<close>, in milliseconds.\<close>

definition Minute :: nat where
  "Minute = 60000"

definition live :: "store \<Rightarrow> nat \<Rightarrow> string \<Rightarrow> bool" where
  "live st t k = (case map_of st k of None \<Rightarrow> False | Some (v, expiry) \<Rightarrow> t < expiry)"

definition SetNX ::
  "go_error option \<Rightarrow> nat \<Rightarrow> string \<Rightarrow> string \<Rightarrow> nat \<Rightarrow> store \<Rightarrow> (go_error + bool) \<times> store" where
  "SetNX fail t key v ttl st =
     (case fail of
        Some err \<Rightarrow> (Inl err, st)
      | None \<Rightarrow>
          if live st t key then (Inr False, st)
          else (Inr True, AList.update key (v, t + ttl) st))"

text \<open>
  \<open>Keys fail t pre st\<close> is \<^verbatim>\<open>KEYS pre*\<close> at time \<open>t\<close>: the live keys that start
  with \<open>pre\<close>, each once.
\<close>

definition Keys :: "go_error option \<Rightarrow> nat \<Rightarrow> string \<Rightarrow> store \<Rightarrow> go_error + string list" where
  "Keys fail t pre st =
     (case fail of
        Some err \<Rightarrow> Inl err
      | None \<Rightarrow> Inr (filter (\<lambda>k. live st t k \<and> prefix pre k) (remdups (map fst st))))"

definition Del :: "go_error option \<Rightarrow> string \<Rightarrow> store \<Rightarrow> store" where
  "Del fail key st = (case fail of Some err \<Rightarrow> st | None \<Rightarrow> AList.delete key st)"

subsection \<open>The state of the process and its surroundings\<close>

datatype log_event =
    LogRedisError go_error
  | LogJsonError go_error
  | LogPostError go_error
  | LogTriggered string nat
  | LogKeysError go_error
  | LogSendingCount nat
  | LogKafkaError go_error
  | LogFileError go_error

record sys =
  redis :: store
  kafka :: "(string \<times> string) list"
  requestLogFile :: string
  logged :: "log_event list"
  mutex :: bool

text \<open>
  What the outside world decides while one request is served: the time at which its SET
  command runs, whether that command fails in transit, and what an HTTP POST returns (an
  error, or the status code of the response).
\<close>

record req_env =
  now :: nat
  setnx_err :: "go_error option"
  http_Post :: "string \<Rightarrow> string \<Rightarrow> string \<Rightarrow> go_error + nat"

text \<open>The two query parameters the handler reads; an absent parameter is the empty string.\<close>

record request =
  id_param :: string
  endpoint_param :: string

record response =
  status :: nat
  body :: string

definition StatusOK :: nat where "StatusOK = 200"
definition StatusBadRequest :: nat where "StatusBadRequest = 400"
definition StatusConflict :: nat where "StatusConflict = 409"
definition StatusInternalServerError :: nat where "StatusInternalServerError = 500"

text \<open>\<^verbatim>\<open>http.Error\<close> writes the status code and the message followed by a newline.\<close>

definition http_Error :: "string \<Rightarrow> nat \<Rightarrow> response" where
  "http_Error msg code = \<lparr>status = code, body = msg @ [CHR 0x0A]\<rparr>"

definition write_ok :: response where
  "write_ok = \<lparr>status = StatusOK, body = ''ok''\<rparr>"

subsection \<open>The request path\<close>

text \<open>\<^verbatim>\<open>fmt.Sprintf("request_id:%d", id)\<close>\<close>

definition request_key :: "int \<Rightarrow> string" where
  "request_key ident = ''request_id:'' @ fmt_d ident"

text \<open>
  The client sends the value \<^verbatim>\<open>true\<close> as the string \<open>1\<close>. On an error the Go function
  returns \<^verbatim>\<open>(false, err)\<close>; the caller looks at the error only, which is \<open>Inl err\<close>.
\<close>

definition trackUniqueRequest :: "req_env \<Rightarrow> int \<Rightarrow> sys \<Rightarrow> (go_error + bool) \<times> sys" where
  "trackUniqueRequest e ident s =
     (let key = request_key ident in
      case SetNX (setnx_err e) (now e) key ''1'' Minute (redis s) of
        (Inl err, st) \<Rightarrow> (Inl err, s\<lparr>redis := st, logged := logged s @ [LogRedisError err]\<rparr>)
      | (Inr isUnique, st) \<Rightarrow> (Inr isUnique, s\<lparr>redis := st\<rparr>))"

text \<open>
  \<^verbatim>\<open>json.Marshal\<close> of a map from strings to strings: an object of quoted members. It
  has no failing case for such a map.
\<close>

definition json_quote :: "string \<Rightarrow> string" where
  "json_quote s =
     [CHR 0x22] @
     concat (map (\<lambda>c. if c = CHR 0x22 \<or> c = CHR 0x5C then [CHR 0x5C, c] else [c]) s) @
     [CHR 0x22]"

fun json_members :: "(string \<times> string) list \<Rightarrow> string" where
  "json_members [] = []"
| "json_members [(k, v)] = json_quote k @ '':'' @ json_quote v"
| "json_members ((k, v) # m) = json_quote k @ '':'' @ json_quote v @ '','' @ json_members m"

definition json_Marshal :: "(string \<times> string) list \<Rightarrow> go_error + string" where
  "json_Marshal m = Inr (''{'' @ json_members m @ ''}'')"

definition triggerEndpoint :: "req_env \<Rightarrow> string \<Rightarrow> sys \<Rightarrow> go_error option \<times> sys" where
  "triggerEndpoint e endpoint s =
     (let data = [(''message'', ''Unique request data'')] in
      case json_Marshal data of
        Inl err \<Rightarrow> (Some err, s\<lparr>logged := logged s @ [LogJsonError err]\<rparr>)
      | Inr jsonData \<Rightarrow>
          (case http_Post e endpoint ''application/json'' jsonData of
             Inl err \<Rightarrow> (Some err, s\<lparr>logged := logged s @ [LogPostError err]\<rparr>)
           | Inr statusCode \<Rightarrow>
               (None, s\<lparr>logged := logged s @ [LogTriggered endpoint statusCode]\<rparr>)))"

text \<open>
  The body of the notification, and when the notification of a request fails: the request
  names an endpoint and the POST to it returns an error.
\<close>

definition notify_payload :: string where
  "notify_payload =
     ''{'' @ json_quote ''message'' @ '':'' @ json_quote ''Unique request data'' @ ''}''"

definition post_fails :: "req_env \<Rightarrow> request \<Rightarrow> bool" where
  "post_fails e r \<longleftrightarrow>
     endpoint_param r \<noteq> [] \<and>
     isl (http_Post e (endpoint_param r) ''application/json'' notify_payload)"

definition RequestHandler :: "req_env \<Rightarrow> request \<Rightarrow> sys \<Rightarrow> response \<times> sys" where
  "RequestHandler e r s =
     (let idParam = id_param r in
      if idParam = [] then (http_Error ''failed'' StatusBadRequest, s)
      else
        case parseID idParam of
          Inl err \<Rightarrow> (http_Error ''failed'' StatusBadRequest, s)
        | Inr ident \<Rightarrow>
            (case trackUniqueRequest e ident s of
               (Inl err, s1) \<Rightarrow> (http_Error ''failed'' StatusInternalServerError, s1)
             | (Inr isUnique, s1) \<Rightarrow>
                 if \<not> isUnique then (http_Error ''failed: Duplicate'' StatusConflict, s1)
                 else
                   (let endpoint = endpoint_param r in
                    if endpoint \<noteq> [] then
                      (case triggerEndpoint e endpoint s1 of
                         (Some err, s2) \<Rightarrow> (http_Error ''failed'' StatusInternalServerError, s2)
                       | (None, s2) \<Rightarrow> (write_ok, s2))
                    else (write_ok, s1))))"

text \<open>
  Requests are served by separate goroutines that share nothing but the Redis store, and
  each sends one SET command. A run of the server is therefore a sequence of requests in
  the order in which Redis executes their commands.
\<close>

fun serve :: "(req_env \<times> request) list \<Rightarrow> sys \<Rightarrow> response list \<times> sys" where
  "serve [] s = ([], s)"
| "serve ((e, r) # rest) s =
     (case RequestHandler e r s of
        (resp, s1) \<Rightarrow> (case serve rest s1 of (resps, s2) \<Rightarrow> (resp # resps, s2)))"

text \<open>
  The identifiers that \<^verbatim>\<open>trackUniqueRequest\<close> reports as new while a sequence of
  requests is served, in order.
\<close>

fun accepted_ids :: "(req_env \<times> request) list \<Rightarrow> sys \<Rightarrow> int list" where
  "accepted_ids [] s = []"
| "accepted_ids ((e, r) # rest) s =
     (case parseID (id_param r) of
        Inl err \<Rightarrow> []
      | Inr ident \<Rightarrow> if fst (trackUniqueRequest e ident s) = Inr True then [ident] else [])
     @ accepted_ids rest (snd (RequestHandler e r s))"



subsection \<open>The aggregation loop\<close>

text \<open>
  What the outside world decides during one cycle: the time at which KEYS runs, and
  whether KEYS, the Kafka produce call, the write to the log file and each DEL fail.
\<close>

record tick_env =
  t_keys :: nat
  keys_err :: "go_error option"
  produce_err :: "go_error option"
  write_err :: "go_error option"
  del_err :: "string \<Rightarrow> go_error option"

definition kafkaTopic :: string where
  "kafkaTopic = ''unique-request-count''"

definition report_text :: "nat \<Rightarrow> string" where
  "report_text uniqueCount = ''Unique request count in last minute: '' @ fmt_d (int uniqueCount)"

text \<open>
  The body of the loop of \<^verbatim>\<open>LogUniqueRequests\<close> is split where requests can run in
  between: \<open>snapshot_report\<close> is the KEYS call and the two reports,
  \<open>cleanup\<close> is the loop of DEL calls (whose results the program drops), and
  \<open>cycle\<close> is the whole body between \<^verbatim>\<open>mutex.Lock\<close> and \<^verbatim>\<open>mutex.Unlock\<close>.
  A cycle that finds the mutex held never returns: that is \<open>None\<close>.
\<close>

definition snapshot_report :: "tick_env \<Rightarrow> sys \<Rightarrow> string list option \<times> sys" where
  "snapshot_report e s =
     (case Keys (keys_err e) (t_keys e) ''request_id:'' (redis s) of
        Inl err \<Rightarrow> (None, s\<lparr>logged := logged s @ [LogKeysError err]\<rparr>)
      | Inr keys \<Rightarrow>
          (let uniqueCount = length keys;
               s1 = s\<lparr>logged := logged s @ [LogSendingCount uniqueCount]\<rparr>;
               message = (kafkaTopic, report_text uniqueCount);
               s2 = (case produce_err e of
                       Some err \<Rightarrow> s1\<lparr>logged := logged s1 @ [LogKafkaError err]\<rparr>
                     | None \<Rightarrow> s1\<lparr>kafka := kafka s1 @ [message]\<rparr>);
               s3 = (case write_err e of
                       Some err \<Rightarrow> s2\<lparr>logged := logged s2 @ [LogFileError err]\<rparr>
                     | None \<Rightarrow>
                         s2\<lparr>requestLogFile :=
                              requestLogFile s2 @ report_text uniqueCount @ [CHR 0x0A]\<rparr>)
           in (Some keys, s3)))"

fun cleanup :: "(string \<Rightarrow> go_error option) \<Rightarrow> string list \<Rightarrow> sys \<Rightarrow> sys" where
  "cleanup fail [] s = s"
| "cleanup fail (key # keys) s = cleanup fail keys (s\<lparr>redis := Del (fail key) key (redis s)\<rparr>)"

definition cycle :: "tick_env \<Rightarrow> sys \<Rightarrow> sys option" where
  "cycle e s =
     (if mutex s then None
      else
        (let s0 = s\<lparr>mutex := True\<rparr> in
         case snapshot_report e s0 of
           (None, s1) \<Rightarrow> Some (s1\<lparr>mutex := False\<rparr>)
         | (Some keys, s1) \<Rightarrow> Some ((cleanup (del_err e) keys s1)\<lparr>mutex := False\<rparr>)))"

text \<open>
  \<^verbatim>\<open>time.Tick\<close> never stops; \<open>LogUniqueRequests\<close> runs the cycles of the ticks it is
  given, one after the other.
\<close>

fun LogUniqueRequests :: "tick_env list \<Rightarrow> sys \<Rightarrow> sys option" where
  "LogUniqueRequests [] s = Some s"
| "LogUniqueRequests (e # es) s =
     (case cycle e s of None \<Rightarrow> None | Some s' \<Rightarrow> LogUniqueRequests es s')"

subsection \<open>Concrete surroundings\<close>

text \<open>
  The state of a freshly started process in front of an empty store, a request that arrives
  at a given time while everything works (every POST is answered with the given status
  code), the same with the callback endpoint unreachable, and a cycle at a given time in
  which every call succeeds; \<open>submit\<close> is a request with an identifier and no endpoint.
\<close>

definition fresh :: sys where
  "fresh = \<lparr>redis = [], kafka = [], requestLogFile = [], logged = [], mutex = False\<rparr>"

definition arrives :: "nat \<Rightarrow> nat \<Rightarrow> req_env" where
  "arrives t code = \<lparr>now = t, setnx_err = None, http_Post = (\<lambda>url ctype payload. Inr code)\<rparr>"

definition arrives_post_down :: "nat \<Rightarrow> req_env" where
  "arrives_post_down t =
     \<lparr>now = t, setnx_err = None,
      http_Post = (\<lambda>url ctype payload. Inl (IOError ''connection refused''))\<rparr>"

definition submit :: "string \<Rightarrow> request" where
  "submit raw = \<lparr>id_param = raw, endpoint_param = []\<rparr>"

definition ticks_at :: "nat \<Rightarrow> tick_env" where
  "ticks_at t =
     \<lparr>t_keys = t, keys_err = None, produce_err = None, write_err = None,
      del_err = (\<lambda>key. None)\<rparr>"

section \<open>The identifier validator\<close>

text \<open>
  On a string of digits the loop of ParseUint computes the base-10 value, or stops with a
  range error once that value exceeds 64 bits; on any other string it stops with an error.
\<close>

lemma digits_fold_ge: "m \<le> foldl (\<lambda>n c. n * 10 + digit_val c) m cs"
proof (induction cs arbitrary: m)
  case Nil then show ?case by simp
next
  case (Cons c cs)
  have "m \<le> m * 10 + digit_val c" by simp
  also have "\<dots> \<le> foldl (\<lambda>n c. n * 10 + digit_val c) (m * 10 + digit_val c) cs" by (rule Cons.IH)
  finally show ?case by simp
qed

lemma ParseUint_loop_digits:
  "list_all is_digit cs \<Longrightarrow> n \<le> maxUint64 \<Longrightarrow>
   ParseUint_loop n cs =
     (if foldl (\<lambda>n c. n * 10 + digit_val c) n cs \<le> maxUint64
      then Inr (foldl (\<lambda>n c. n * 10 + digit_val c) n cs) else Inl ErrRange)"
proof (induction cs arbitrary: n)
  case Nil then show ?case by simp
next
  case (Cons c cs)
  let ?n1 = "n * 10 + digit_val c"
  have ge: "?n1 \<le> foldl (\<lambda>n c. n * 10 + digit_val c) ?n1 cs" by (rule digits_fold_ge)
  have d: "is_digit c" and ds: "list_all is_digit cs" using Cons.prems by simp_all
  show ?case
  proof (cases "n \<ge> maxUint64 div 10 + 1")
    case True
    then have "?n1 > maxUint64" by (simp add: maxUint64_def)
    with ge True d show ?thesis by simp
  next
    case False
    show ?thesis
    proof (cases "?n1 > maxUint64")
      case True
      with ge False d show ?thesis by simp
    next
      case b: False
      then have "?n1 \<le> maxUint64" by simp
      from Cons.IH[OF ds this] False b d show ?thesis by simp
    qed
  qed
qed

lemma ParseUint_loop_nondigits:
  "\<not> list_all is_digit cs \<Longrightarrow> \<exists>err. ParseUint_loop n cs = Inl err"
  by (induction cs arbitrary: n) auto

lemma ParseUint_digits:
  "cs \<noteq> [] \<Longrightarrow> list_all is_digit cs \<Longrightarrow>
   ParseUint cs = (if digits_value cs \<le> maxUint64 then Inr (digits_value cs) else Inl ErrRange)"
  by (simp add: ParseUint_def digits_value_def ParseUint_loop_digits)

lemma ParseUint_bad:
  "cs = [] \<or> \<not> list_all is_digit cs \<Longrightarrow> \<exists>err. ParseUint cs = Inl err"
  using ParseUint_loop_nondigits[of cs 0] by (auto simp: ParseUint_def)

lemma ParseUint_errors: "ParseUint cs = Inl err \<Longrightarrow> err = ErrSyntax \<or> err = ErrRange"
proof -
  have "ParseUint_loop n cs = Inl err \<Longrightarrow> err = ErrSyntax \<or> err = ErrRange" for n
    by (induction cs arbitrary: n) (auto split: if_splits)
  then show "ParseUint cs = Inl err \<Longrightarrow> err = ErrSyntax \<or> err = ErrRange"
    by (auto simp: ParseUint_def split: if_splits)
qed

lemma not_digit_sign: "\<not> is_digit CHR ''+''" "\<not> is_digit CHR ''-''"
  by (simp_all add: is_digit_def)

lemma range_check_pos:
  "int_range_check False un = (if fits_int (int un) then Inr (int un) else Inl ErrRange)"
  by (auto simp: int_range_check_def fits_int_def intSize_def)

lemma range_check_neg:
  "int_range_check True un = (if fits_int (- int un) then Inr (- int un) else Inl ErrRange)"
  by (auto simp: int_range_check_def fits_int_def intSize_def)

lemma range_check_max: "int_range_check neg maxUint64 = Inl ErrRange"
  by (auto simp: int_range_check_def maxUint64_def intSize_def)

lemma ParseInt_decimal:
  assumes "is_decimal s"
  shows "ParseInt s = (if fits_int (decimal_value s) then Inr (decimal_value s) else Inl ErrRange)"
proof (cases s)
  case Nil with assms show ?thesis by (simp add: is_decimal_def)
next
  case (Cons c cs)
  show ?thesis
  proof (cases "c = CHR ''+'' \<or> c = CHR ''-''")
    case True
    with assms Cons have ne: "cs \<noteq> []" and ds: "list_all is_digit cs"
      by (auto simp: is_decimal_def)
    show ?thesis
    proof (cases "digits_value cs \<le> maxUint64")
      case le: True
      with True Cons ne ds show ?thesis
        by (auto simp: ParseInt_def ParseUint_digits decimal_value_def range_check_pos range_check_neg)
    next
      case gt: False
      then have "\<not> fits_int (int (digits_value cs))" "\<not> fits_int (- int (digits_value cs))"
        by (auto simp: fits_int_def maxUint64_def intSize_def)
      with gt True Cons ne ds show ?thesis
        by (auto simp: ParseInt_def ParseUint_digits decimal_value_def range_check_max)
    qed
  next
    case False
    with assms Cons have ds: "list_all is_digit s" and ne: "s \<noteq> []"
      by (auto simp: is_decimal_def)
    show ?thesis
    proof (cases "digits_value s \<le> maxUint64")
      case le: True
      with False Cons ne ds ParseUint_digits[OF ne ds] show ?thesis
        by (auto simp: ParseInt_def decimal_value_def range_check_pos)
    next
      case gt: False
      then have "\<not> fits_int (int (digits_value s))"
        by (auto simp: fits_int_def maxUint64_def intSize_def)
      with gt False Cons ne ds ParseUint_digits[OF ne ds] show ?thesis
        by (auto simp: ParseInt_def decimal_value_def range_check_max)
    qed
  qed
qed

lemma ParseInt_not_decimal:
  assumes "\<not> is_decimal s"
  shows "\<exists>err. ParseInt s = Inl err"
proof (cases s)
  case Nil then show ?thesis by (simp add: ParseInt_def)
next
  case (Cons c cs)
  define s' where "s' = (if c = CHR ''+'' \<or> c = CHR ''-'' then cs else s)"
  have bad: "s' = [] \<or> \<not> list_all is_digit s'"
    using assms Cons by (auto simp: is_decimal_def s'_def split: if_splits)
  then obtain err where e: "ParseUint s' = Inl err" using ParseUint_bad by blast
  then have cases: "err = ErrSyntax \<or> err = ErrRange" by (rule ParseUint_errors)
  have "ParseInt s =
      (if err \<noteq> ErrRange then Inl err else int_range_check (c = CHR ''-'') maxUint64)"
    using Cons e by (auto simp: ParseInt_def s'_def split: if_splits)
  with cases show ?thesis
    by (auto simp: range_check_max)
qed

text \<open>
  Claim C8, as the code has it. For every string that is an optional sign followed by at
  least one decimal digit, \<open>parseID\<close> returns exactly the integer the string denotes when
  that integer fits the 64-bit \<^verbatim>\<open>int\<close> of the host, and a range error when it does
  not; for every other string, the empty one included, it returns an error.
\<close>

theorem parseID_decimal:
  "(is_decimal s \<and> fits_int (decimal_value s) \<longrightarrow> parseID s = Inr (decimal_value s)) \<and>
   (is_decimal s \<and> \<not> fits_int (decimal_value s) \<longrightarrow> parseID s = Inl ErrRange) \<and>
   (\<not> is_decimal s \<longrightarrow> (\<exists>err. parseID s = Inl err))"
  using ParseInt_decimal[of s] ParseInt_not_decimal[of s]
  by (auto simp: parseID_def Atoi_def)

theorem parseID_decimal_witness:
  "is_decimal ''-42'' \<and> fits_int (decimal_value ''-42'') \<and> parseID ''-42'' = Inr (- 42) \<and>
   is_decimal ''+18446744073709551616'' \<and> \<not> fits_int (decimal_value ''+18446744073709551616'') \<and>
   parseID ''+18446744073709551616'' = Inl ErrRange \<and>
   \<not> is_decimal ''4x'' \<and> \<not> is_decimal [] \<and>
   (\<exists>err. parseID ''4x'' = Inl err) \<and> (\<exists>err. parseID [] = Inl err)"
proof -
  have a: "is_decimal ''-42''" "fits_int (decimal_value ''-42'')" "decimal_value ''-42'' = - 42"
    by (simp_all add: is_decimal_def is_digit_def decimal_value_def digits_value_def
        digit_val_def fits_int_def intSize_def)
  have b: "is_decimal ''+18446744073709551616''"
    "\<not> fits_int (decimal_value ''+18446744073709551616'')"
    by (simp_all add: is_decimal_def is_digit_def decimal_value_def digits_value_def
        digit_val_def fits_int_def intSize_def)
  have c: "\<not> is_decimal ''4x''" "\<not> is_decimal []"
    by (simp_all add: is_decimal_def is_digit_def)
  show ?thesis
    using a b c parseID_decimal[of "''-42''"] parseID_decimal[of "''+18446744073709551616''"]
      parseID_decimal[of "''4x''"] parseID_decimal[of "[]"]
    by simp
qed

text \<open>
  Claim C8 as it is worded fails: \<open>9223372036854775808\<close> is a base-10 integer, one more
  than the largest \<^verbatim>\<open>int\<close>, and the validator rejects it.
\<close>

theorem parseID_rejects_large_decimal:
  "is_decimal ''9223372036854775808'' \<and>
   decimal_value ''9223372036854775808'' = 9223372036854775808 \<and>
   parseID ''9223372036854775808'' = Inl ErrRange"
  by (simp add: is_decimal_def decimal_value_def digits_value_def parseID_def Atoi_def
      ParseInt_def ParseUint_def int_range_check_def is_digit_def digit_val_def maxUint64_def
      intSize_def)

section \<open>The key of an identifier\<close>

text \<open>
  The decimal text that \<open>fmt_d\<close> prints denotes the number it was given: read back with
  \<open>decimal_value\<close> it is that number. Distinct identifiers therefore have distinct keys.
\<close>

lemma digit_char_cases:
  assumes "d < 10"
  shows "is_digit (digit_char d) \<and> digit_val (digit_char d) = d"
proof -
  from assms have "d = 0 \<or> d = 1 \<or> d = 2 \<or> d = 3 \<or> d = 4 \<or> d = 5 \<or> d = 6 \<or> d = 7 \<or> d = 8 \<or> d = 9"
    by arith
  then show ?thesis
    by (elim disjE) (simp_all add: digit_char_def is_digit_def digit_val_def)
qed

lemma digits_value_snoc: "digits_value (cs @ [c]) = digits_value cs * 10 + digit_val c"
  by (simp add: digits_value_def)

lemma digits_of_value:
  "list_all is_digit (digits_of n) \<and> digits_of n \<noteq> [] \<and> digits_value (digits_of n) = n"
proof (induction n rule: digits_of.induct)
  case (1 n)
  show ?case
  proof (cases "n < 10")
    case True
    with digit_char_cases[of n] show ?thesis
      by (subst (1 2 3) digits_of.simps) (simp add: digits_value_def)
  next
    case False
    have m: "n mod 10 < 10" by simp
    from 1[OF False] digit_char_cases[OF m] False show ?thesis
      by (subst (1 2 3) digits_of.simps) (simp add: digits_value_snoc)
  qed
qed

lemma digits_of_no_sign:
  "digits_of n = c # cs \<Longrightarrow> c \<noteq> CHR ''+'' \<and> c \<noteq> CHR ''-''"
  using digits_of_value[of n] not_digit_sign by auto

lemma fmt_d_decimal: "is_decimal (fmt_d i) \<and> decimal_value (fmt_d i) = i"
proof (cases "i < 0")
  case True
  with digits_of_value[of "nat (- i)"] show ?thesis
    by (simp add: fmt_d_def is_decimal_def decimal_value_def)
next
  case False
  obtain c cs where d: "digits_of (nat i) = c # cs"
    using digits_of_value[of "nat i"] by (cases "digits_of (nat i)") auto
  from digits_of_no_sign[OF d] digits_of_value[of "nat i"] False d show ?thesis
    by (simp add: fmt_d_def is_decimal_def decimal_value_def)
qed

lemma fmt_d_inject:
  assumes "fmt_d i = fmt_d j"
  shows "i = j"
proof -
  have "i = decimal_value (fmt_d i)" using fmt_d_decimal[of i] by simp
  also have "\<dots> = decimal_value (fmt_d j)" by (simp only: assms)
  also have "\<dots> = j" using fmt_d_decimal[of j] by simp
  finally show ?thesis .
qed

lemma request_key_inject: "request_key i = request_key j \<Longrightarrow> i = j"
  by (simp add: request_key_def fmt_d_inject)


section \<open>The store and the frame of the request path\<close>


lemma live_delete:
  "live (AList.delete k st) t k' = (k' \<noteq> k \<and> live st t k')"
  by (simp add: live_def delete_conv')

lemma live_earlier: "live st t k \<Longrightarrow> t' \<le> t \<Longrightarrow> live st t' k"
  by (auto simp: live_def split: option.splits)

lemma live_in_keys: "live st t k \<Longrightarrow> k \<in> fst ` set st"
  by (auto simp: live_def split: option.splits dest: map_of_SomeD intro: rev_image_eqI)

lemma Keys_ok:
  "Keys None t pre st = Inr ks \<Longrightarrow>
   set ks = {k. live st t k \<and> prefix pre k} \<and> distinct ks"
  by (auto simp: Keys_def dest: live_in_keys)

lemma Keys_length:
  "Keys None t pre st = Inr ks \<Longrightarrow> length ks = card {k. live st t k \<and> prefix pre k}"
  using Keys_ok[of t pre st ks] distinct_card[of ks] by simp

lemma finite_tracked: "finite {k. live st t k \<and> prefix pre k}"
  by (rule finite_subset[of _ "fst ` set st"]) (auto dest: live_in_keys)

lemma track_result:
  "fst (trackUniqueRequest e i s) = fst (SetNX (setnx_err e) (now e) (request_key i) ''1'' Minute (redis s))"
  by (simp add: trackUniqueRequest_def Let_def split: prod.splits sum.splits)

lemma track_redis:
  "redis (snd (trackUniqueRequest e i s)) = snd (SetNX (setnx_err e) (now e) (request_key i) ''1'' Minute (redis s))"
  by (simp add: trackUniqueRequest_def Let_def split: prod.splits sum.splits)


lemma trigger_frame:
  "redis (snd (triggerEndpoint e ep s)) = redis s"
  "kafka (snd (triggerEndpoint e ep s)) = kafka s"
  "requestLogFile (snd (triggerEndpoint e ep s)) = requestLogFile s"
  "mutex (snd (triggerEndpoint e ep s)) = mutex s"
  by (simp_all add: triggerEndpoint_def Let_def split: prod.splits sum.splits)

lemma parseID_empty: "parseID [] = Inl ErrSyntax"
  by (simp add: parseID_def Atoi_def ParseInt_def)

lemma handler_redis:
  "redis (snd (RequestHandler e r s)) =
     (case parseID (id_param r) of
        Inl err \<Rightarrow> redis s
      | Inr i \<Rightarrow> redis (snd (trackUniqueRequest e i s)))"
proof (cases "parseID (id_param r)")
  case (Inl err)
  then show ?thesis by (simp add: RequestHandler_def Let_def)
next
  case (Inr i)
  then have ne: "id_param r \<noteq> []" using parseID_empty by auto
  obtain res s1 where t: "trackUniqueRequest e i s = (res, s1)" by (cases "trackUniqueRequest e i s")
  obtain o2 s2 where g: "triggerEndpoint e (endpoint_param r) s1 = (o2, s2)"
    by (cases "triggerEndpoint e (endpoint_param r) s1")
  have "redis s2 = redis s1" using trigger_frame(1)[of e "endpoint_param r" s1] g by simp
  with Inr ne t g show ?thesis
    by (simp add: RequestHandler_def Let_def split: sum.splits option.splits)
qed


lemma serve_Cons:
  "snd (serve ((e, r) # rest) s) = snd (serve rest (snd (RequestHandler e r s)))"
  "fst (serve ((e, r) # rest) s) =
     fst (RequestHandler e r s) # fst (serve rest (snd (RequestHandler e r s)))"
  by (simp_all split: prod.splits)


lemma track_new:
  "fst (trackUniqueRequest e i s) = Inr True \<longleftrightarrow>
     setnx_err e = None \<and> \<not> live (redis s) (now e) (request_key i)"
  by (auto simp: track_result SetNX_def split: option.splits)

lemma track_dup:
  "fst (trackUniqueRequest e i s) = Inr False \<longleftrightarrow>
     setnx_err e = None \<and> live (redis s) (now e) (request_key i)"
  by (auto simp: track_result SetNX_def split: option.splits)

lemma track_redis_new:
  "fst (trackUniqueRequest e i s) = Inr True \<Longrightarrow>
   redis (snd (trackUniqueRequest e i s)) =
     AList.update (request_key i) (''1'', now e + Minute) (redis s)"
  by (auto simp: track_result track_redis SetNX_def split: option.splits if_splits)

lemma track_redis_old:
  "fst (trackUniqueRequest e i s) \<noteq> Inr True \<Longrightarrow>
   redis (snd (trackUniqueRequest e i s)) = redis s"
  by (auto simp: track_result track_redis SetNX_def split: option.splits if_splits)

text \<open>One request either leaves the store alone or inserts the key of a new identifier.\<close>

lemma handler_step:
  "(\<exists>i. parseID (id_param r) = Inr i \<and> fst (trackUniqueRequest e i s) = Inr True \<and>
        accepted_ids [(e, r)] s = [i] \<and>
        redis (snd (RequestHandler e r s)) =
          AList.update (request_key i) (''1'', now e + Minute) (redis s)) \<or>
   (accepted_ids [(e, r)] s = [] \<and> redis (snd (RequestHandler e r s)) = redis s)"
proof (cases "parseID (id_param r)")
  case (Inl err)
  then show ?thesis by (simp add: handler_redis)
next
  case (Inr i)
  show ?thesis
  proof (cases "fst (trackUniqueRequest e i s) = Inr True")
    case True
    with Inr show ?thesis by (simp add: handler_redis track_redis_new)
  next
    case False
    with Inr show ?thesis by (simp add: handler_redis track_redis_old)
  qed
qed

lemma accepted_Cons:
  "accepted_ids ((e, r) # rest) s =
     accepted_ids [(e, r)] s @ accepted_ids rest (snd (RequestHandler e r s))"
  by simp

text \<open>A key never loses its record while requests are served, and its expiry never moves back.\<close>

lemma handler_expiry_mono:
  assumes "map_of (redis s) k = Some (v, x)"
  shows "\<exists>v' x'. map_of (redis (snd (RequestHandler e r s))) k = Some (v', x') \<and> x \<le> x'"
proof -
  from handler_step[of r e s] show ?thesis
  proof
    assume "\<exists>i. parseID (id_param r) = Inr i \<and> fst (trackUniqueRequest e i s) = Inr True \<and>
        accepted_ids [(e, r)] s = [i] \<and>
        redis (snd (RequestHandler e r s)) =
          AList.update (request_key i) (''1'', now e + Minute) (redis s)"
    then obtain i where new: "fst (trackUniqueRequest e i s) = Inr True"
      and upd: "redis (snd (RequestHandler e r s)) =
          AList.update (request_key i) (''1'', now e + Minute) (redis s)" by blast
    show ?thesis
    proof (cases "k = request_key i")
      case True
      from new have "\<not> live (redis s) (now e) (request_key i)" by (simp add: track_new)
      with assms True have "x \<le> now e" by (simp add: live_def)
      with upd True show ?thesis by (simp add: update_conv')
    next
      case False
      with upd assms show ?thesis by (simp add: update_conv')
    qed
  next
    assume "accepted_ids [(e, r)] s = [] \<and> redis (snd (RequestHandler e r s)) = redis s"
    with assms show ?thesis by simp
  qed
qed

lemma serve_expiry_mono:
  "map_of (redis s) k = Some (v, x) \<Longrightarrow>
   \<exists>v' x'. map_of (redis (snd (serve reqs s))) k = Some (v', x') \<and> x \<le> x'"
proof (induction reqs arbitrary: s v x)
  case Nil then show ?case by simp
next
  case (Cons q reqs)
  obtain e r where q: "q = (e, r)" by (cases q)
  from handler_expiry_mono[OF Cons.prems, of e r] obtain v1 x1
    where h: "map_of (redis (snd (RequestHandler e r s))) k = Some (v1, x1)" and le: "x \<le> x1"
    by blast
  from Cons.IH[OF h] obtain v' x'
    where "map_of (redis (snd (serve reqs (snd (RequestHandler e r s))))) k = Some (v', x')"
      and "x1 \<le> x'" by blast
  with le show ?case unfolding q serve_Cons by auto
qed

lemma serve_stays_live:
  "live (redis s) t k \<Longrightarrow> live (redis (snd (serve reqs s))) t k"
proof -
  assume l: "live (redis s) t k"
  then obtain v x where m: "map_of (redis s) k = Some (v, x)" and t: "t < x"
    by (auto simp: live_def split: option.splits)
  from serve_expiry_mono[OF m, of reqs] t show ?thesis by (auto simp: live_def)
qed

section \<open>The notification and the response\<close>

lemmas run_defs =
  RequestHandler_def trackUniqueRequest_def triggerEndpoint_def SetNX_def live_def
  request_key_def fmt_d_def digits_of.simps digit_char_def json_Marshal_def json_quote_def
  http_Error_def write_ok_def StatusOK_def StatusBadRequest_def StatusConflict_def
  StatusInternalServerError_def Minute_def fresh_def arrives_def arrives_post_down_def
  parseID_def Atoi_def ParseInt_def ParseUint_def int_range_check_def is_digit_def
  digit_val_def maxUint64_def intSize_def post_fails_def notify_payload_def

lemma json_Marshal_payload:
  "json_Marshal [(''message'', ''Unique request data'')] = Inr notify_payload"
  by (simp add: json_Marshal_def notify_payload_def)

lemma trigger_fst:
  "fst (triggerEndpoint e endpoint s) =
     (case http_Post e endpoint ''application/json'' notify_payload of
        Inl err \<Rightarrow> Some err
      | Inr statusCode \<Rightarrow> None)"
  by (simp add: triggerEndpoint_def json_Marshal_payload split: sum.splits)

lemma handler_response:
  "fst (RequestHandler e r s) =
     (case parseID (id_param r) of
        Inl err \<Rightarrow> http_Error ''failed'' StatusBadRequest
      | Inr i \<Rightarrow>
          (case fst (trackUniqueRequest e i s) of
             Inl err \<Rightarrow> http_Error ''failed'' StatusInternalServerError
           | Inr isUnique \<Rightarrow>
               if \<not> isUnique then http_Error ''failed: Duplicate'' StatusConflict
               else if post_fails e r then http_Error ''failed'' StatusInternalServerError
               else write_ok))"
proof (cases "parseID (id_param r)")
  case (Inl err)
  then show ?thesis by (simp add: RequestHandler_def Let_def)
next
  case (Inr i)
  then have ne: "id_param r \<noteq> []" using parseID_empty by auto
  obtain res s1 where t: "trackUniqueRequest e i s = (res, s1)"
    by (cases "trackUniqueRequest e i s")
  obtain o2 s2 where g: "triggerEndpoint e (endpoint_param r) s1 = (o2, s2)"
    by (cases "triggerEndpoint e (endpoint_param r) s1")
  have o2: "o2 = (case http_Post e (endpoint_param r) ''application/json'' notify_payload of
        Inl err \<Rightarrow> Some err | Inr statusCode \<Rightarrow> None)"
    using trigger_fst[of e "endpoint_param r" s1] g by simp
  from Inr ne t g o2 show ?thesis
    by (auto simp: RequestHandler_def Let_def post_fails_def split: sum.splits option.splits)
qed

lemma handler_marks:
  "parseID (id_param r) = Inr i \<Longrightarrow> fst (trackUniqueRequest e i s) = Inr True \<Longrightarrow>
   map_of (redis (snd (RequestHandler e r s))) (request_key i) = Some (''1'', now e + Minute)"
  by (simp add: handler_redis track_redis_new update_conv')

text \<open>
  Claim C10. The notification dispatcher returns no error for any POST that comes back
  with a response, whatever its status code, and it returns the error of the POST when the
  POST itself fails; encoding the fixed payload never fails.
\<close>

theorem triggerEndpoint_result:
  "json_Marshal [(''message'', ''Unique request data'')] = Inr notify_payload \<and>
   (http_Post e endpoint ''application/json'' notify_payload = Inr statusCode \<longrightarrow>
      fst (triggerEndpoint e endpoint s) = None) \<and>
   (http_Post e endpoint ''application/json'' notify_payload = Inl err \<longrightarrow>
      fst (triggerEndpoint e endpoint s) = Some err)"
  by (simp add: trigger_fst json_Marshal_payload)

theorem triggerEndpoint_result_witness:
  "http_Post (arrives 0 503) ''http://cb/'' ''application/json'' notify_payload = Inr 503 \<and>
   fst (triggerEndpoint (arrives 0 503) ''http://cb/'' fresh) = None \<and>
   http_Post (arrives_post_down 0) ''http://cb/'' ''application/json'' notify_payload
     = Inl (IOError ''connection refused'') \<and>
   fst (triggerEndpoint (arrives_post_down 0) ''http://cb/'' fresh)
     = Some (IOError ''connection refused'')"
  using triggerEndpoint_result[of "arrives 0 503" "''http://cb/''" 503 fresh]
    triggerEndpoint_result[of "arrives_post_down 0" "''http://cb/''" _ fresh
      "IOError ''connection refused''"]
  by (simp add: arrives_def arrives_post_down_def)

text \<open>
  Claim C2, as the code has it. The response is decided in this order: a bad request when
  validation fails; otherwise an internal error when the store call fails; otherwise a
  conflict when the identifier is a duplicate; otherwise an internal error when the request
  names an endpoint and the notification POST fails; otherwise ``ok''.
\<close>

theorem RequestHandler_outcome:
  "fst (RequestHandler e r s) =
     (case parseID (id_param r) of
        Inl err \<Rightarrow> http_Error ''failed'' StatusBadRequest
      | Inr i \<Rightarrow>
          (case fst (trackUniqueRequest e i s) of
             Inl err \<Rightarrow> http_Error ''failed'' StatusInternalServerError
           | Inr isUnique \<Rightarrow>
               if \<not> isUnique then http_Error ''failed: Duplicate'' StatusConflict
               else if post_fails e r then http_Error ''failed'' StatusInternalServerError
               else write_ok))"
  by (rule handler_response)

theorem RequestHandler_outcome_witness:
  "fst (RequestHandler (arrives 5 200) \<lparr>id_param = ''42'', endpoint_param = ''http://cb/''\<rparr> fresh)
     = write_ok \<and>
   fst (RequestHandler (arrives 5 200) \<lparr>id_param = ''abc'', endpoint_param = []\<rparr> fresh)
     = http_Error ''failed'' StatusBadRequest"
  using RequestHandler_outcome[of "arrives 5 200"
      "\<lparr>id_param = ''42'', endpoint_param = ''http://cb/''\<rparr>" fresh]
    RequestHandler_outcome[of "arrives 5 200" "\<lparr>id_param = ''abc'', endpoint_param = []\<rparr>" fresh]
  by (simp add: run_defs)

text \<open>
  Claim C2 as it is worded fails: the identifier \<open>7\<close> is valid, the store call succeeds and
  reports it new, and the answer is the internal error, because the callback endpoint is
  down.
\<close>

theorem accepted_request_answered_with_error:
  "parseID ''7'' = Inr 7 \<and>
   fst (trackUniqueRequest (arrives_post_down 100) 7 fresh) = Inr True \<and>
   fst (RequestHandler (arrives_post_down 100)
          \<lparr>id_param = ''7'', endpoint_param = ''http://127.0.0.1:9/''\<rparr> fresh)
     = \<lparr>status = 500, body = ''failed'' @ [CHR 0x0A]\<rparr>"
  by (simp add: run_defs)

text \<open>
  Claim C1, as the code has it. For a valid, newly accepted request the response depends on
  the notification: when the request names an endpoint and the notification POST fails,
  the handler answers with the internal error and not with ``ok''; when it names no
  endpoint or the POST returns a response, the handler answers ``ok''.
\<close>

theorem failed_notification_is_internal_error:
  assumes "parseID (id_param r) = Inr i"
    and "fst (trackUniqueRequest e i s) = Inr True"
  shows "fst (RequestHandler e r s) =
           (if post_fails e r then http_Error ''failed'' StatusInternalServerError else write_ok) \<and>
         http_Error ''failed'' StatusInternalServerError \<noteq> write_ok"
  using assms by (simp add: handler_response http_Error_def write_ok_def)

theorem failed_notification_is_internal_error_witness:
  "parseID (id_param \<lparr>id_param = ''42'', endpoint_param = ''http://cb/''\<rparr>) = Inr 42 \<and>
   fst (trackUniqueRequest (arrives_post_down 10) 42 fresh) = Inr True \<and>
   post_fails (arrives_post_down 10) \<lparr>id_param = ''42'', endpoint_param = ''http://cb/''\<rparr> \<and>
   fst (RequestHandler (arrives_post_down 10)
          \<lparr>id_param = ''42'', endpoint_param = ''http://cb/''\<rparr> fresh)
     = http_Error ''failed'' StatusInternalServerError \<and>
   fst (trackUniqueRequest (arrives 10 404) 42 fresh) = Inr True \<and>
   \<not> post_fails (arrives 10 404) \<lparr>id_param = ''42'', endpoint_param = ''http://cb/''\<rparr> \<and>
   fst (RequestHandler (arrives 10 404)
          \<lparr>id_param = ''42'', endpoint_param = ''http://cb/''\<rparr> fresh)
     = write_ok"
proof -
  let ?r = "\<lparr>id_param = ''42'', endpoint_param = ''http://cb/''\<rparr>"
  have h1: "parseID (id_param ?r) = Inr 42" by (simp add: run_defs)
  have h2: "fst (trackUniqueRequest (arrives_post_down 10) 42 fresh) = Inr True"
    by (simp add: run_defs)
  have h3: "post_fails (arrives_post_down 10) ?r"
    by (simp add: post_fails_def arrives_post_down_def)
  have h4: "fst (trackUniqueRequest (arrives 10 404) 42 fresh) = Inr True"
    by (simp add: run_defs)
  have h5: "\<not> post_fails (arrives 10 404) ?r" by (simp add: post_fails_def arrives_def)
  from failed_notification_is_internal_error[OF h1 h2]
    failed_notification_is_internal_error[OF h1 h4] h1 h2 h3 h4 h5
  show ?thesis by simp
qed

text \<open>
  Claim C1 as it is worded fails: the same request in the same state is answered ``ok''
  when the POST is answered and with the internal error when the POST fails.
\<close>

theorem notification_failure_changes_response:
  "fst (RequestHandler (arrives 0 200) \<lparr>id_param = ''15'', endpoint_param = ''http://cb/''\<rparr> fresh)
     = \<lparr>status = 200, body = ''ok''\<rparr> \<and>
   fst (trackUniqueRequest (arrives_post_down 0) 15 fresh) = Inr True \<and>
   fst (RequestHandler (arrives_post_down 0)
          \<lparr>id_param = ''15'', endpoint_param = ''http://cb/''\<rparr> fresh)
     = \<lparr>status = 500, body = ''failed'' @ [CHR 0x0A]\<rparr>"
  by (simp add: run_defs)

section \<open>Deduplication within a window\<close>

lemma serve_append:
  "snd (serve (xs @ ys) s) = snd (serve ys (snd (serve xs s)))"
  "fst (serve (xs @ ys) s) = fst (serve xs s) @ fst (serve ys (snd (serve xs s)))"
proof -
  have "snd (serve (xs @ ys) s) = snd (serve ys (snd (serve xs s))) \<and>
        fst (serve (xs @ ys) s) = fst (serve xs s) @ fst (serve ys (snd (serve xs s)))"
  proof (induction xs arbitrary: s)
    case Nil then show ?case by simp
  next
    case (Cons p xs)
    obtain e r where p: "p = (e, r)" by (cases p)
    from Cons.IH[of "snd (RequestHandler e r s)"] show ?case
      unfolding p append_Cons serve_Cons by simp
  qed
  then show "snd (serve (xs @ ys) s) = snd (serve ys (snd (serve xs s)))"
    and "fst (serve (xs @ ys) s) = fst (serve xs s) @ fst (serve ys (snd (serve xs s)))"
    by simp_all
qed

lemma serve_length: "length (fst (serve reqs s)) = length reqs"
proof (induction reqs arbitrary: s)
  case Nil then show ?case by simp
next
  case (Cons p reqs)
  obtain e r where p: "p = (e, r)" by (cases p)
  from Cons.IH[of "snd (RequestHandler e r s)"] show ?case unfolding p serve_Cons by simp
qed

lemma accepted_append:
  "accepted_ids (xs @ ys) s = accepted_ids xs s @ accepted_ids ys (snd (serve xs s))"
proof (induction xs arbitrary: s)
  case Nil then show ?case by simp
next
  case (Cons p xs)
  obtain e r where p: "p = (e, r)" by (cases p)
  show ?case
    unfolding p by (simp add: Cons.IH serve_Cons del: serve.simps)
qed

text \<open>A request that does not carry the identifier \<open>i\<close> leaves the record of \<open>i\<close> alone.\<close>

lemma handler_other:
  assumes "parseID (id_param r) \<noteq> Inr i"
  shows "map_of (redis (snd (RequestHandler e r s))) (request_key i) = map_of (redis s) (request_key i)"
    and "i \<notin> set (accepted_ids [(e, r)] s)"
proof -
  show "i \<notin> set (accepted_ids [(e, r)] s)"
    using assms by (auto split: sum.splits if_splits)
  from handler_step[of r e s]
  show "map_of (redis (snd (RequestHandler e r s))) (request_key i) = map_of (redis s) (request_key i)"
  proof
    assume "\<exists>j. parseID (id_param r) = Inr j \<and> fst (trackUniqueRequest e j s) = Inr True \<and>
        accepted_ids [(e, r)] s = [j] \<and>
        redis (snd (RequestHandler e r s)) =
          AList.update (request_key j) (''1'', now e + Minute) (redis s)"
    then obtain j where pj: "parseID (id_param r) = Inr j"
      and upd: "redis (snd (RequestHandler e r s)) =
          AList.update (request_key j) (''1'', now e + Minute) (redis s)" by blast
    from pj assms have "j \<noteq> i" by auto
    then have "request_key j \<noteq> request_key i" using request_key_inject by blast
    then show ?thesis by (simp add: upd update_conv')
  next
    assume "accepted_ids [(e, r)] s = [] \<and> redis (snd (RequestHandler e r s)) = redis s"
    then show ?thesis by simp
  qed
qed

lemma serve_others:
  assumes "\<forall>(q, r) \<in> set pre. parseID (id_param r) \<noteq> Inr i"
  shows "map_of (redis (snd (serve pre s))) (request_key i) = map_of (redis s) (request_key i)
         \<and> i \<notin> set (accepted_ids pre s)"
  using assms
proof (induction pre arbitrary: s)
  case Nil then show ?case by simp
next
  case (Cons p pre)
  obtain e r where p: "p = (e, r)" by (cases p)
  from Cons.prems p have hd: "parseID (id_param r) \<noteq> Inr i"
    and tl: "\<forall>(q, r) \<in> set pre. parseID (id_param r) \<noteq> Inr i" by auto
  from Cons.IH[OF tl, of "snd (RequestHandler e r s)"] handler_other[OF hd, of e s]
  show ?case unfolding p serve_Cons accepted_Cons[of e r pre] by simp
qed

text \<open>
  Once the key of \<open>i\<close> is in the store, every request for \<open>i\<close> that reaches the store
  before the expiry is answered as a duplicate, whatever other requests are served in
  between.
\<close>

lemma serve_duplicates:
  assumes "map_of (redis s) (request_key i) = Some (v, x)"
    and "\<forall>(q, r) \<in> set reqs. parseID (id_param r) = Inr i \<longrightarrow> setnx_err q = None \<and> now q < x"
  shows "(\<forall>k < length reqs. parseID (id_param (snd (reqs ! k))) = Inr i \<longrightarrow>
            fst (serve reqs s) ! k = http_Error ''failed: Duplicate'' StatusConflict)
         \<and> i \<notin> set (accepted_ids reqs s)"
  using assms
proof (induction reqs arbitrary: s v x)
  case Nil then show ?case by simp
next
  case (Cons p reqs)
  obtain e r where p: "p = (e, r)" by (cases p)
  let ?s1 = "snd (RequestHandler e r s)"
  from handler_expiry_mono[OF Cons.prems(1), of e r] obtain v1 x1
    where m1: "map_of (redis ?s1) (request_key i) = Some (v1, x1)" and le: "x \<le> x1" by blast
  have rest: "\<forall>(q, r) \<in> set reqs. parseID (id_param r) = Inr i \<longrightarrow> setnx_err q = None \<and> now q < x1"
    using Cons.prems(2) le by fastforce
  note ih = Cons.IH[OF m1 rest]
  have hd: "(parseID (id_param r) = Inr i \<longrightarrow>
              fst (RequestHandler e r s) = http_Error ''failed: Duplicate'' StatusConflict)
            \<and> i \<notin> set (accepted_ids [(e, r)] s)"
  proof (cases "parseID (id_param r) = Inr i")
    case True
    with Cons.prems(2) p have ok: "setnx_err e = None" and lt: "now e < x" by auto
    from Cons.prems(1) lt have "live (redis s) (now e) (request_key i)" by (simp add: live_def)
    with ok have dup: "fst (trackUniqueRequest e i s) = Inr False" by (simp add: track_dup)
    with True show ?thesis by (simp add: handler_response)
  next
    case False
    with handler_other(2)[OF False, of e s] show ?thesis by simp
  qed
  have a: "i \<notin> set (accepted_ids ((e, r) # reqs) s)"
    unfolding accepted_Cons[of e r reqs] using hd ih by simp
  have b: "\<forall>k < length ((e, r) # reqs). parseID (id_param (snd (((e, r) # reqs) ! k))) = Inr i \<longrightarrow>
            fst (serve ((e, r) # reqs) s) ! k = http_Error ''failed: Duplicate'' StatusConflict"
  proof (intro allI impI)
    fix k assume k: "k < length ((e, r) # reqs)"
      and pk: "parseID (id_param (snd (((e, r) # reqs) ! k))) = Inr i"
    show "fst (serve ((e, r) # reqs) s) ! k = http_Error ''failed: Duplicate'' StatusConflict"
    proof (cases k)
      case 0
      with pk hd show ?thesis unfolding serve_Cons by simp
    next
      case (Suc k')
      with k pk ih show ?thesis unfolding serve_Cons by simp
    qed
  qed
  from a b show ?case unfolding p by blast
qed

text \<open>
  Claim C4. A window opens at a time \<open>t0\<close> at which the identifier has no live record
  (it was never inserted, a cycle deleted it, or it expired). Whatever requests for other
  identifiers are served first, the first call of \<^verbatim>\<open>trackUniqueRequest\<close> for the
  identifier returns true. It inserts the key \<open>request_id:\<close> followed by the identifier in
  decimal (read back as a decimal string, the text after the prefix denotes the
  identifier, so distinct identifiers have distinct keys), with the value \<open>1\<close> and an
  expiry 60000 ms, one minute, after the call. Whatever requests are served afterwards,
  every later call for the same identifier that reaches the store before that expiry, with
  no cycle in between, returns false.
\<close>

theorem trackUniqueRequest_window:
  assumes "\<not> live (redis s0) t0 (request_key i)"
    and "t0 \<le> now e"
    and "\<forall>(q, r) \<in> set pre. parseID (id_param r) \<noteq> Inr i"
    and "setnx_err e = None"
    and "setnx_err e' = None"
    and "now e' < now e + Minute"
  shows "fst (trackUniqueRequest e i (snd (serve pre s0))) = Inr True \<and>
         (\<exists>d. request_key i = ''request_id:'' @ d \<and> is_decimal d \<and> decimal_value d = i) \<and>
         (\<forall>j. j \<noteq> i \<longrightarrow> request_key j \<noteq> request_key i) \<and>
         map_of (redis (snd (trackUniqueRequest e i (snd (serve pre s0))))) (request_key i)
           = Some (''1'', now e + 60000) \<and>
         fst (trackUniqueRequest e' i
               (snd (serve mid (snd (trackUniqueRequest e i (snd (serve pre s0)))))))
           = Inr False"
proof -
  let ?sp = "snd (serve pre s0)"
  let ?s1 = "snd (trackUniqueRequest e i ?sp)"
  have "\<not> live (redis s0) (now e) (request_key i)"
    using assms(1,2) live_earlier by blast
  moreover have "map_of (redis ?sp) (request_key i) = map_of (redis s0) (request_key i)"
    using serve_others[OF assms(3)] by simp
  ultimately have nl: "\<not> live (redis ?sp) (now e) (request_key i)" by (simp add: live_def)
  have new: "fst (trackUniqueRequest e i ?sp) = Inr True"
    using assms(4) nl by (simp add: track_new)
  have m: "map_of (redis ?s1) (request_key i) = Some (''1'', now e + Minute)"
    using new by (simp add: track_redis_new update_conv')
  then have "live (redis ?s1) (now e') (request_key i)"
    using assms(6) by (simp add: live_def)
  then have "live (redis (snd (serve mid ?s1))) (now e') (request_key i)"
    by (rule serve_stays_live)
  then have dup: "fst (trackUniqueRequest e' i (snd (serve mid ?s1))) = Inr False"
    using assms(5) by (simp add: track_dup)
  have key: "\<exists>d. request_key i = ''request_id:'' @ d \<and> is_decimal d \<and> decimal_value d = i"
    using fmt_d_decimal[of i] by (simp add: request_key_def)
  have inj: "\<forall>j. j \<noteq> i \<longrightarrow> request_key j \<noteq> request_key i"
    using request_key_inject by blast
  from new key inj m dup show ?thesis by (simp add: Minute_def)
qed

theorem trackUniqueRequest_window_witness:
  "\<not> live (redis fresh) 0 (request_key 42) \<and> 0 \<le> now (arrives 1000 200) \<and>
   list_all (\<lambda>(q, r). parseID (id_param r) \<noteq> Inr 42)
     [(arrives 500 200, submit ''8''), (arrives 600 200, submit ''-42'')] \<and>
   setnx_err (arrives 1000 200) = None \<and> setnx_err (arrives 60999 200) = None \<and>
   now (arrives 60999 200) < now (arrives 1000 200) + Minute \<and>
   request_key 42 = ''request_id:42'' \<and> request_key (- 42) = ''request_id:-42'' \<and>
   fst (trackUniqueRequest (arrives 1000 200) 42
         (snd (serve [(arrives 500 200, submit ''8''), (arrives 600 200, submit ''-42'')] fresh)))
     = Inr True \<and>
   redis (snd (trackUniqueRequest (arrives 1000 200) 42
         (snd (serve [(arrives 500 200, submit ''8''), (arrives 600 200, submit ''-42'')] fresh))))
     = [(''request_id:8'', ''1'', 60500), (''request_id:-42'', ''1'', 60600),
        (''request_id:42'', ''1'', 61000)] \<and>
   fst (trackUniqueRequest (arrives 60999 200) 42
         (snd (serve [(arrives 2000 200, submit ''42''), (arrives 2500 200, submit ''9'')]
           (snd (trackUniqueRequest (arrives 1000 200) 42
             (snd (serve [(arrives 500 200, submit ''8''), (arrives 600 200, submit ''-42'')]
                    fresh)))))))
     = Inr False"
proof -
  let ?pre = "[(arrives 500 200, submit ''8''), (arrives 600 200, submit ''-42'')]"
  have h1: "\<not> live (redis fresh) 0 (request_key 42)" by (simp add: live_def fresh_def)
  have h2: "0 \<le> now (arrives 1000 200)" by simp
  have h3: "\<forall>(q, r) \<in> set ?pre. parseID (id_param r) \<noteq> Inr 42"
    by (simp add: run_defs submit_def)
  have h3': "list_all (\<lambda>(q, r). parseID (id_param r) \<noteq> Inr 42) ?pre"
    using h3 by (simp only: list_all_iff)
  have h4: "setnx_err (arrives 1000 200) = None" by (simp add: arrives_def)
  have h5: "setnx_err (arrives 60999 200) = None" by (simp add: arrives_def)
  have h6: "now (arrives 60999 200) < now (arrives 1000 200) + Minute"
    by (simp add: arrives_def Minute_def)
  have k: "request_key 42 = ''request_id:42''" "request_key (- 42) = ''request_id:-42''"
    by (simp_all add: request_key_def fmt_d_def digits_of.simps digit_char_def)
  have sp: "snd (serve ?pre fresh) =
      \<lparr>redis = [(''request_id:8'', ''1'', 60500), (''request_id:-42'', ''1'', 60600)],
       kafka = [], requestLogFile = [], logged = [], mutex = False\<rparr>"
    by (simp add: run_defs submit_def Let_def)
  have st: "redis (snd (trackUniqueRequest (arrives 1000 200) 42 (snd (serve ?pre fresh))))
     = [(''request_id:8'', ''1'', 60500), (''request_id:-42'', ''1'', 60600),
        (''request_id:42'', ''1'', 61000)]"
    unfolding sp by (simp add: run_defs Let_def)
  from trackUniqueRequest_window[OF h1 h2 h3 h4 h5 h6,
      of "[(arrives 2000 200, submit ''42''), (arrives 2500 200, submit ''9'')]"]
    h1 h2 h3' h4 h5 h6 k st
  show ?thesis by blast
qed

text \<open>
  Claim C7, as the code has it. The handlers share nothing but the Redis store and Redis
  executes one command at a time, so a concurrent run is the list of the requests in the
  order in which their SET commands are executed; no cycle runs in between. Let the run
  hold any requests, among them N for the identifier \<open>i\<close> that reach the store, all
  within one minute of a time \<open>t0\<close> at which \<open>i\<close> has no live record. Whatever the order,
  the first of the N is the only one found new: it is answered ``ok'', or with the internal
  error when it names an endpoint and its notification POST fails, and each of the other
  N-1 is answered as a duplicate. Exactly one call reports the identifier new.
\<close>

theorem same_identifier_one_new:
  assumes "\<forall>(q, r) \<in> set pre. parseID (id_param r) \<noteq> Inr i"
    and "parseID (id_param r1) = Inr i"
    and "\<forall>(q, r) \<in> set ((e1, r1) # rest).
           parseID (id_param r) = Inr i \<longrightarrow>
           setnx_err q = None \<and> t0 \<le> now q \<and> now q < t0 + Minute"
    and "\<not> live (redis s) t0 (request_key i)"
  shows "fst (serve (pre @ (e1, r1) # rest) s) ! length pre =
           (if post_fails e1 r1 then http_Error ''failed'' StatusInternalServerError else write_ok) \<and>
         (\<forall>k < length rest. parseID (id_param (snd (rest ! k))) = Inr i \<longrightarrow>
            fst (serve (pre @ (e1, r1) # rest) s) ! (length pre + 1 + k)
              = http_Error ''failed: Duplicate'' StatusConflict) \<and>
         filter (\<lambda>j. j = i) (accepted_ids (pre @ (e1, r1) # rest) s) = [i]"
proof -
  let ?sp = "snd (serve pre s)"
  let ?s1 = "snd (RequestHandler e1 r1 ?sp)"
  from assms(2,3) have ok: "setnx_err e1 = None" and ge: "t0 \<le> now e1" by auto
  have "\<not> live (redis s) (now e1) (request_key i)"
    using assms(4) ge live_earlier by blast
  moreover have "map_of (redis ?sp) (request_key i) = map_of (redis s) (request_key i)"
    using serve_others[OF assms(1)] by simp
  ultimately have "\<not> live (redis ?sp) (now e1) (request_key i)" by (simp add: live_def)
  with ok have new: "fst (trackUniqueRequest e1 i ?sp) = Inr True" by (simp add: track_new)
  have resp: "fst (RequestHandler e1 r1 ?sp) =
      (if post_fails e1 r1 then http_Error ''failed'' StatusInternalServerError else write_ok)"
    using assms(2) new by (simp add: handler_response)
  have m: "map_of (redis ?s1) (request_key i) = Some (''1'', now e1 + Minute)"
    using assms(2) new by (rule handler_marks)
  have later: "\<forall>(q, r) \<in> set rest.
      parseID (id_param r) = Inr i \<longrightarrow> setnx_err q = None \<and> now q < now e1 + Minute"
    using assms(3) ge by fastforce
  note d = serve_duplicates[OF m later]
  have np: "i \<notin> set (accepted_ids pre s)" using serve_others[OF assms(1)] by simp
  have hd: "accepted_ids [(e1, r1)] ?sp = [i]" using assms(2) new by simp
  have lp: "length (fst (serve pre s)) = length pre" by (rule serve_length)
  have whole: "fst (serve (pre @ (e1, r1) # rest) s) =
      fst (serve pre s) @ fst (RequestHandler e1 r1 ?sp) # fst (serve rest ?s1)"
    by (simp add: serve_append serve_Cons del: serve.simps)
  have acc: "accepted_ids (pre @ (e1, r1) # rest) s =
      accepted_ids pre s @ accepted_ids [(e1, r1)] ?sp @ accepted_ids rest ?s1"
    using accepted_append[of pre "(e1, r1) # rest" s] accepted_Cons[of e1 r1 rest ?sp] by simp
  have a: "fst (serve (pre @ (e1, r1) # rest) s) ! length pre =
      (if post_fails e1 r1 then http_Error ''failed'' StatusInternalServerError else write_ok)"
    unfolding whole using lp resp by (simp add: nth_append)
  have b: "\<forall>k < length rest. parseID (id_param (snd (rest ! k))) = Inr i \<longrightarrow>
            fst (serve (pre @ (e1, r1) # rest) s) ! (length pre + 1 + k)
              = http_Error ''failed: Duplicate'' StatusConflict"
    unfolding whole using lp d by (simp add: nth_append)
  have c: "filter (\<lambda>j. j = i) (accepted_ids (pre @ (e1, r1) # rest) s) = [i]"
  proof -
    have none: "i \<notin> set xs \<Longrightarrow> filter (\<lambda>j. j = i) xs = []" for xs
      by (induction xs) auto
    from np d show ?thesis unfolding acc hd by (simp add: none)
  qed
  from a b c show ?thesis by blast
qed

theorem same_identifier_one_new_witness:
  "list_all (\<lambda>(q, r). parseID (id_param r) \<noteq> Inr 42) [(arrives 3 200, submit ''41'')] \<and>
   parseID (id_param (submit ''42'')) = Inr 42 \<and>
   list_all (\<lambda>(q, r). parseID (id_param r) \<noteq> Inr 42 \<or>
                      setnx_err q = None \<and> 0 \<le> now q \<and> now q < 0 + Minute)
     [(arrives 10 200, submit ''42''), (arrives 20 200, submit ''+42''),
      (arrives 15 200, submit ''43''),
      (arrives 5 200, \<lparr>id_param = ''042'', endpoint_param = ''http://cb/''\<rparr>)] \<and>
   \<not> live (redis fresh) 0 (request_key 42) \<and>
   fst (serve ([(arrives 3 200, submit ''41'')] @ (arrives 10 200, submit ''42'') #
               [(arrives 20 200, submit ''+42''), (arrives 15 200, submit ''43''),
                (arrives 5 200, \<lparr>id_param = ''042'', endpoint_param = ''http://cb/''\<rparr>)]) fresh)
     = [write_ok, write_ok, http_Error ''failed: Duplicate'' StatusConflict, write_ok,
        http_Error ''failed: Duplicate'' StatusConflict] \<and>
   filter (\<lambda>j. j = 42)
     (accepted_ids ([(arrives 3 200, submit ''41'')] @ (arrives 10 200, submit ''42'') #
               [(arrives 20 200, submit ''+42''), (arrives 15 200, submit ''43''),
                (arrives 5 200, \<lparr>id_param = ''042'', endpoint_param = ''http://cb/''\<rparr>)]) fresh)
     = [42]"
proof -
  let ?pre = "[(arrives 3 200, submit ''41'')]"
  let ?rest = "[(arrives 20 200, submit ''+42''), (arrives 15 200, submit ''43''),
                (arrives 5 200, \<lparr>id_param = ''042'', endpoint_param = ''http://cb/''\<rparr>)]"
  have h1: "\<forall>(q, r) \<in> set ?pre. parseID (id_param r) \<noteq> Inr 42"
    by (simp add: run_defs submit_def)
  have h2: "parseID (id_param (submit ''42'')) = Inr 42" by (simp add: run_defs submit_def)
  have h3: "\<forall>(q, r) \<in> set ((arrives 10 200, submit ''42'') # ?rest).
           parseID (id_param r) = Inr 42 \<longrightarrow>
           setnx_err q = None \<and> 0 \<le> now q \<and> now q < 0 + Minute"
    by (simp add: run_defs submit_def)
  have h4: "\<not> live (redis fresh) 0 (request_key 42)" by (simp add: live_def fresh_def)
  have h1': "list_all (\<lambda>(q, r). parseID (id_param r) \<noteq> Inr 42) ?pre"
    using h1 by (simp only: list_all_iff)
  have h3': "list_all (\<lambda>(q, r). parseID (id_param r) \<noteq> Inr 42 \<or>
                      setnx_err q = None \<and> 0 \<le> now q \<and> now q < 0 + Minute)
      ((arrives 10 200, submit ''42'') # ?rest)"
    by (simp add: run_defs submit_def)
  have resp: "fst (serve (?pre @ (arrives 10 200, submit ''42'') # ?rest) fresh)
     = [write_ok, write_ok, http_Error ''failed: Duplicate'' StatusConflict, write_ok,
        http_Error ''failed: Duplicate'' StatusConflict]"
    by (simp add: run_defs submit_def Let_def update_conv')
  from same_identifier_one_new[OF h1 h2 h3 h4] h1' h2 h3' h4 resp show ?thesis by blast
qed

text \<open>
  Claim C7 as it is worded fails: of two submissions of the identifier \<open>42\<close> that name an
  endpoint which is down, the first is answered with the internal error and the second as
  a duplicate; none is answered ``ok''.
\<close>

theorem same_identifier_none_accepted:
  "fst (serve [(arrives_post_down 0, \<lparr>id_param = ''42'', endpoint_param = ''http://cb/''\<rparr>),
               (arrives_post_down 1, \<lparr>id_param = ''42'', endpoint_param = ''http://cb/''\<rparr>)] fresh)
     = [\<lparr>status = 500, body = ''failed'' @ [CHR 0x0A]\<rparr>,
        \<lparr>status = 409, body = ''failed: Duplicate'' @ [CHR 0x0A]\<rparr>]"
  by (simp add: run_defs update_conv')

section \<open>The aggregation cycle\<close>

lemma cleanup_frame:
  "kafka (cleanup f ks s) = kafka s \<and> requestLogFile (cleanup f ks s) = requestLogFile s \<and>
   logged (cleanup f ks s) = logged s \<and> mutex (cleanup f ks s) = mutex s"
  by (induction ks arbitrary: s) simp_all

lemma cleanup_map_of:
  "map_of (redis (cleanup f ks s)) k =
     (if k \<in> set ks \<and> f k = None then None else map_of (redis s) k)"
proof (induction ks arbitrary: s)
  case Nil then show ?case by simp
next
  case (Cons key ks)
  show ?case
    by (cases "f key") (auto simp: Cons.IH Del_def delete_conv')
qed

lemma cleanup_same_store:
  "redis s = redis s' \<Longrightarrow> redis (cleanup f ks s) = redis (cleanup f ks s')"
  by (induction ks arbitrary: s s') simp_all

lemma digits_of_chars: "set (digits_of n) \<subseteq> set ''0123456789''"
proof (induction n rule: digits_of.induct)
  case (1 n)
  have d: "m < 10 \<Longrightarrow> digit_char m \<in> set ''0123456789''" for m
    unfolding digit_char_def by (rule nth_mem) simp
  show ?case
  proof (cases "n < 10")
    case True
    with d[of n] show ?thesis by (subst digits_of.simps) simp
  next
    case False
    have "n mod 10 < 10" by simp
    with d[of "n mod 10"] 1 False show ?thesis by (subst digits_of.simps) auto
  qed
qed

lemma report_text_one_line: "CHR 0x0A \<notin> set (report_text n)"
  using digits_of_chars[of n] by (auto simp: report_text_def fmt_d_def)

lemma snapshot_fail:
  "keys_err e = Some err \<Longrightarrow>
   snapshot_report e s = (None, s\<lparr>logged := logged s @ [LogKeysError err]\<rparr>)"
  by (simp add: snapshot_report_def Keys_def)

lemma snapshot_ok:
  assumes "Keys (keys_err e) (t_keys e) ''request_id:'' (redis s) = Inr keys"
  shows "fst (snapshot_report e s) = Some keys"
    and "redis (snd (snapshot_report e s)) = redis s"
    and "mutex (snd (snapshot_report e s)) = mutex s"
    and "kafka (snd (snapshot_report e s)) =
          (if produce_err e = None then kafka s @ [(kafkaTopic, report_text (length keys))] else kafka s)"
    and "requestLogFile (snd (snapshot_report e s)) =
          (if write_err e = None then requestLogFile s @ report_text (length keys) @ [CHR 0x0A] else requestLogFile s)"
    and "LogSendingCount (length keys) \<in> set (logged (snd (snapshot_report e s)))"
  using assms by (auto simp: snapshot_report_def Let_def split: option.splits)

lemma cycle_fail:
  assumes "keys_err e = Some err" and "\<not> mutex s"
  shows "cycle e s = Some (s\<lparr>logged := logged s @ [LogKeysError err]\<rparr>)"
  using assms by (simp add: cycle_def Let_def snapshot_fail)

lemma cycle_ok:
  assumes "\<not> mutex s"
    and "Keys (keys_err e) (t_keys e) ''request_id:'' (redis s) = Inr keys"
  shows "\<exists>s'. cycle e s = Some s' \<and> \<not> mutex s' \<and>
           kafka s' = (if produce_err e = None then kafka s @ [(kafkaTopic, report_text (length keys))] else kafka s) \<and>
           requestLogFile s' = (if write_err e = None then requestLogFile s @ report_text (length keys) @ [CHR 0x0A] else requestLogFile s) \<and>
           LogSendingCount (length keys) \<in> set (logged s') \<and>
           (\<forall>k. map_of (redis s') k =
                  (if k \<in> set keys \<and> del_err e k = None then None else map_of (redis s) k))"
proof -
  let ?s0 = "s\<lparr>mutex := True\<rparr>"
  have k0: "Keys (keys_err e) (t_keys e) ''request_id:'' (redis ?s0) = Inr keys"
    using assms(2) by simp
  obtain s1 where sr: "snapshot_report e ?s0 = (Some keys, s1)"
    using snapshot_ok(1)[OF k0] by (cases "snapshot_report e ?s0") auto
  have s1: "snd (snapshot_report e ?s0) = s1" using sr by simp
  have c: "cycle e s = Some ((cleanup (del_err e) keys s1)\<lparr>mutex := False\<rparr>)"
    using assms(1) sr by (simp add: cycle_def Let_def)
  have r: "redis s1 = redis s" using snapshot_ok(2)[OF k0] s1 by simp
  have ka: "kafka s1 = (if produce_err e = None then kafka s @ [(kafkaTopic, report_text (length keys))] else kafka s)"
    using snapshot_ok(4)[OF k0] s1 by simp
  have fi: "requestLogFile s1 = (if write_err e = None then requestLogFile s @ report_text (length keys) @ [CHR 0x0A] else requestLogFile s)"
    using snapshot_ok(5)[OF k0] s1 by simp
  have lo: "LogSendingCount (length keys) \<in> set (logged s1)"
    using snapshot_ok(6)[OF k0] s1 by simp
  show ?thesis
    unfolding c using r ka fi lo cleanup_frame[of "del_err e" keys s1]
    by (simp add: cleanup_map_of)
qed

lemma cycle_total: "\<not> mutex s \<Longrightarrow> \<exists>s'. cycle e s = Some s' \<and> \<not> mutex s'"
proof (cases "keys_err e")
  case None
  assume m: "\<not> mutex s"
  have "\<exists>keys. Keys (keys_err e) (t_keys e) ''request_id:'' (redis s) = Inr keys"
    using None by (simp add: Keys_def)
  then obtain keys where "Keys (keys_err e) (t_keys e) ''request_id:'' (redis s) = Inr keys" ..
  from cycle_ok[OF m this] show ?thesis by blast
next
  case (Some err)
  assume m: "\<not> mutex s"
  from cycle_fail[OF Some m] m show ?thesis by simp
qed

lemma LogUniqueRequests_total:
  "\<not> mutex s \<Longrightarrow> \<exists>s'. LogUniqueRequests es s = Some s' \<and> \<not> mutex s'"
proof (induction es arbitrary: s)
  case Nil then show ?case by simp
next
  case (Cons e es)
  from cycle_total[OF Cons.prems, of e] obtain s1 where c: "cycle e s = Some s1" and m: "\<not> mutex s1"
    by blast
  from Cons.IH[OF m] c show ?case by simp
qed

lemmas cycle_defs =
  cycle_def snapshot_report_def Keys_def Del_def ticks_at_def report_text_def kafkaTopic_def
  submit_def

text \<open>
  Claim C6. When the KEYS call fails, the cycle changes nothing but the process log: the
  store, the Kafka queue and the log file are as before and the mutex is free again. The
  loop goes on with the next tick from that state, and it never stops: from a state with
  the mutex free, the cycles of any number of ticks all return.
\<close>

theorem cycle_skipped_when_keys_fails:
  assumes "keys_err e = Some err" and "\<not> mutex s"
  shows "cycle e s = Some (s\<lparr>logged := logged s @ [LogKeysError err]\<rparr>) \<and>
         LogUniqueRequests (e # es) s =
           LogUniqueRequests es (s\<lparr>logged := logged s @ [LogKeysError err]\<rparr>) \<and>
         (\<exists>s'. LogUniqueRequests (e # es) s = Some s' \<and> \<not> mutex s')"
proof -
  have c: "cycle e s = Some (s\<lparr>logged := logged s @ [LogKeysError err]\<rparr>)"
    using assms by (rule cycle_fail)
  have t: "\<exists>s'. LogUniqueRequests (e # es) s = Some s' \<and> \<not> mutex s'"
    using assms(2) by (rule LogUniqueRequests_total)
  from c t show ?thesis by simp
qed

theorem cycle_skipped_when_keys_fails_witness:
  "keys_err ((ticks_at 60000)\<lparr>keys_err := Some (IOError ''dial tcp: connection refused'')\<rparr>)
     = Some (IOError ''dial tcp: connection refused'') \<and>
   \<not> mutex (snd (RequestHandler (arrives 10 200) (submit ''5'') fresh)) \<and>
   cycle ((ticks_at 60000)\<lparr>keys_err := Some (IOError ''dial tcp: connection refused'')\<rparr>)
         (snd (RequestHandler (arrives 10 200) (submit ''5'') fresh))
     = Some \<lparr>redis = [(''request_id:5'', ''1'', 60010)], kafka = [], requestLogFile = [],
             logged = [LogKeysError (IOError ''dial tcp: connection refused'')],
             mutex = False\<rparr>"
proof -
  let ?e = "(ticks_at 60000)\<lparr>keys_err := Some (IOError ''dial tcp: connection refused'')\<rparr>"
  let ?s = "snd (RequestHandler (arrives 10 200) (submit ''5'') fresh)"
  have s: "?s = \<lparr>redis = [(''request_id:5'', ''1'', 60010)], kafka = [], requestLogFile = [],
             logged = [], mutex = False\<rparr>"
    by (simp add: run_defs submit_def Let_def)
  have h1: "keys_err ?e = Some (IOError ''dial tcp: connection refused'')" by simp
  have h2: "\<not> mutex ?s" unfolding s by simp
  from cycle_skipped_when_keys_fails[OF h1 h2, of "[]"] h1 h2 show ?thesis unfolding s by simp
qed

text \<open>
  Claim C9, as the code has it. A cycle whose KEYS call returns the snapshot \<open>keys\<close> hands
  Kafka one message for the topic \<open>unique-request-count\<close> when the produce call succeeds,
  and appends one line to the log file when the write succeeds. Both hold the text
  \<open>Unique request count in last minute: \<close> followed by a string of decimal digits whose
  value is the length of the snapshot; the line ends with the only newline it contains. A
  sink whose call fails is left as it was, and so are both sinks when the KEYS call fails.
\<close>

theorem cycle_reports_snapshot_length:
  assumes "\<not> mutex s"
  shows "\<exists>s'. cycle e s = Some s' \<and>
           (\<forall>keys. Keys (keys_err e) (t_keys e) ''request_id:'' (redis s) = Inr keys \<longrightarrow>
              (\<exists>d. d \<noteq> [] \<and> list_all is_digit d \<and> digits_value d = length keys \<and>
                 CHR 0x0A \<notin> set (''Unique request count in last minute: '' @ d) \<and>
                 kafka s' =
                   (if produce_err e = None
                    then kafka s @ [(''unique-request-count'',
                                     ''Unique request count in last minute: '' @ d)]
                    else kafka s) \<and>
                 requestLogFile s' =
                   (if write_err e = None
                    then requestLogFile s @
                           ''Unique request count in last minute: '' @ d @ [CHR 0x0A]
                    else requestLogFile s))) \<and>
           (\<forall>err. Keys (keys_err e) (t_keys e) ''request_id:'' (redis s) = Inl err \<longrightarrow>
              kafka s' = kafka s \<and> requestLogFile s' = requestLogFile s)"
proof (cases "keys_err e")
  case (Some err)
  have "Keys (keys_err e) (t_keys e) ''request_id:'' (redis s) = Inl err"
    using Some by (simp add: Keys_def)
  with cycle_fail[OF Some assms] show ?thesis by simp
next
  case None
  obtain keys where k: "Keys (keys_err e) (t_keys e) ''request_id:'' (redis s) = Inr keys"
    using None by (simp add: Keys_def)
  from cycle_ok[OF assms k] obtain s' where c: "cycle e s = Some s'"
    and ka: "kafka s' = (if produce_err e = None
              then kafka s @ [(kafkaTopic, report_text (length keys))] else kafka s)"
    and fi: "requestLogFile s' = (if write_err e = None
              then requestLogFile s @ report_text (length keys) @ [CHR 0x0A]
              else requestLogFile s)"
    by blast
  let ?d = "fmt_d (int (length keys))"
  have d: "?d \<noteq> [] \<and> list_all is_digit ?d \<and> digits_value ?d = length keys"
    using digits_of_value[of "length keys"] by (simp add: fmt_d_def)
  have n: "CHR 0x0A \<notin> set (''Unique request count in last minute: '' @ ?d)"
    using report_text_one_line[of "length keys"] by (simp add: report_text_def)
  have "\<exists>d. d \<noteq> [] \<and> list_all is_digit d \<and> digits_value d = length keys \<and>
                 CHR 0x0A \<notin> set (''Unique request count in last minute: '' @ d) \<and>
                 kafka s' =
                   (if produce_err e = None
                    then kafka s @ [(''unique-request-count'',
                                     ''Unique request count in last minute: '' @ d)]
                    else kafka s) \<and>
                 requestLogFile s' =
                   (if write_err e = None
                    then requestLogFile s @
                           ''Unique request count in last minute: '' @ d @ [CHR 0x0A]
                    else requestLogFile s)"
    using d n ka fi unfolding report_text_def kafkaTopic_def
    by (intro exI[of _ ?d]) simp
  with c k show ?thesis by simp
qed

theorem cycle_reports_snapshot_length_witness:
  "\<not> mutex \<lparr>redis = [(''request_id:1'', ''1'', 70001), (''request_id:2'', ''1'', 70002),
                       (''request_id:3'', ''1'', 70003), (''request_id:4'', ''1'', 70004),
                       (''request_id:5'', ''1'', 70005), (''request_id:6'', ''1'', 70006),
                       (''request_id:7'', ''1'', 70007), (''request_id:8'', ''1'', 70008),
                       (''request_id:9'', ''1'', 70009), (''request_id:10'', ''1'', 70010),
                       (''request_id:11'', ''1'', 70011), (''request_id:12'', ''1'', 70012)],
              kafka = [], requestLogFile = [], logged = [], mutex = False\<rparr> \<and>
   cycle (ticks_at 60001)
     \<lparr>redis = [(''request_id:1'', ''1'', 70001), (''request_id:2'', ''1'', 70002),
               (''request_id:3'', ''1'', 70003), (''request_id:4'', ''1'', 70004),
               (''request_id:5'', ''1'', 70005), (''request_id:6'', ''1'', 70006),
               (''request_id:7'', ''1'', 70007), (''request_id:8'', ''1'', 70008),
               (''request_id:9'', ''1'', 70009), (''request_id:10'', ''1'', 70010),
               (''request_id:11'', ''1'', 70011), (''request_id:12'', ''1'', 70012)],
      kafka = [], requestLogFile = [], logged = [], mutex = False\<rparr>
     = Some \<lparr>redis = [], kafka = [(''unique-request-count'',
                                      ''Unique request count in last minute: 12'')],
             requestLogFile = ''Unique request count in last minute: 12'' @ [CHR 0x0A],
             logged = [LogSendingCount 12], mutex = False\<rparr> \<and>
   digits_value ''12'' = 12"
proof -
  let ?s = "\<lparr>redis = [(''request_id:1'', ''1'', 70001), (''request_id:2'', ''1'', 70002),
               (''request_id:3'', ''1'', 70003), (''request_id:4'', ''1'', 70004),
               (''request_id:5'', ''1'', 70005), (''request_id:6'', ''1'', 70006),
               (''request_id:7'', ''1'', 70007), (''request_id:8'', ''1'', 70008),
               (''request_id:9'', ''1'', 70009), (''request_id:10'', ''1'', 70010),
               (''request_id:11'', ''1'', 70011), (''request_id:12'', ''1'', 70012)],
      kafka = [], requestLogFile = [], logged = [], mutex = False\<rparr>"
  have h: "\<not> mutex ?s" by simp
  have c: "cycle (ticks_at 60001) ?s
     = Some \<lparr>redis = [], kafka = [(''unique-request-count'',
                                      ''Unique request count in last minute: 12'')],
             requestLogFile = ''Unique request count in last minute: 12'' @ [CHR 0x0A],
             logged = [LogSendingCount 12], mutex = False\<rparr>"
    by (simp add: cycle_defs live_def Let_def fmt_d_def digits_of.simps digit_char_def)
  have v: "digits_value ''12'' = 12" by (simp add: digits_value_def digit_val_def)
  from cycle_reports_snapshot_length[OF h, of "ticks_at 60001"] h c v show ?thesis by blast
qed

text \<open>
  Claim C9 as it is worded fails. In the first cycle the KEYS call succeeds and lists one
  key, and the produce call and the write to the log file both fail: the cycle is over, the
  key is deleted, and neither sink received anything. In the second cycle the KEYS call
  itself fails, and again neither sink received anything.
\<close>

theorem cycle_emits_nothing_when_sinks_fail:
  "cycle ((ticks_at 60001)\<lparr>produce_err := Some (IOError ''Local: Queue full''),
                            write_err := Some (IOError ''no space left on device'')\<rparr>)
     \<lparr>redis = [(''request_id:1'', ''1'', 60010)], kafka = [], requestLogFile = [],
      logged = [], mutex = False\<rparr>
   = Some \<lparr>redis = [], kafka = [], requestLogFile = [],
           logged = [LogSendingCount 1, LogKafkaError (IOError ''Local: Queue full''),
                     LogFileError (IOError ''no space left on device'')],
           mutex = False\<rparr> \<and>
   cycle ((ticks_at 60001)\<lparr>keys_err := Some (IOError ''i/o timeout'')\<rparr>)
     \<lparr>redis = [(''request_id:1'', ''1'', 60010)], kafka = [], requestLogFile = [],
      logged = [], mutex = False\<rparr>
   = Some \<lparr>redis = [(''request_id:1'', ''1'', 60010)], kafka = [], requestLogFile = [],
           logged = [LogKeysError (IOError ''i/o timeout'')], mutex = False\<rparr>"
  by (simp add: cycle_defs live_def Let_def)

section \<open>What a cycle counts and what it deletes\<close>
















end
